theory Spec2Isabelle
  imports Main "HOL-Library.Word" "HOL-Library.AList" "HOL-Library.Sublist"
begin

unbundle bit_operations_syntax

section \<open>Slab cells and the free stack (atomic\_stack.hpp, std\_memory.hpp)\<close>

text \<open>
  A slab cell is a \<open>StackNode<BasicClient>\<close>: the stack's own fields \<open>uuid\<close>, \<open>sfd\<close> and
  \<open>ptr_to_next\<close>, and the fields of the embedded \<open>BasicClient\<close> (\<open>sfd_\<close> and the
  receive buffer; \<open>message_buff\<close> holds the bytes the last read stored, the empty
  list standing for the zero-initialised buffer).  Cells are addressed by their index in
  the slab; a pointer into the slab is \<open>Some i\<close>, the null pointer is \<open>None\<close>.
\<close>

record node =
  uuid :: int
  sfd :: int
  ptr_to_next :: "nat option"
  client_sfd :: int
  message_buff :: string

text \<open>
  \<open>StdMemory\<close> together with the stack's head: \<open>allocated\<close> is
  \<open>ptr_to_mem_slab != nullptr\<close>, \<open>data\<close> the cells of the slab by index,
  \<open>capacity\<close> the \<open>int\<close> field, \<open>head\<close> the atomic head pointer.
\<close>

record stack_mem =
  allocated :: bool
  data :: "nat \<Rightarrow> node"
  capacity :: int
  head :: "nat option"

text \<open>The constructor \<open>StackNode(next_ptr)\<close> with the default member initialisers.\<close>

definition StackNode :: "nat option \<Rightarrow> node" where
  "StackNode next_ptr =
     \<lparr>uuid = 0, sfd = 0, ptr_to_next = next_ptr, client_sfd = 0, message_buff = []\<rparr>"

text \<open>
  The loop \<open>for (std::int64_t i = 0; ++i < alloc.capacity;)\<close> of \<open>init\<close>: the
  increment happens before the test, the body sees the incremented \<open>i\<close>.
\<close>

function init_loop :: "int \<Rightarrow> 'a stack_mem_scheme \<Rightarrow> 'a stack_mem_scheme" where
  "init_loop i s =
     (let i' = i + 1 in
      if i' < capacity s
      then init_loop i'
             (s\<lparr>data := (data s)(nat i' := (StackNode (Some (nat (i' - 1))))\<lparr>uuid := i'\<rparr>),
                head := Some (nat i')\<rparr>)
      else s)"
  by pat_completeness auto
termination
  by (relation "measure (\<lambda>(i, s). nat (capacity s - i))") auto

declare init_loop.simps [simp del]

definition init :: "'a stack_mem_scheme \<Rightarrow> 'a stack_mem_scheme" where
  "init s =
     (if \<not> allocated s then s
      else init_loop 0 (s\<lparr>data := (data s)(0 := StackNode None), head := Some 0\<rparr>))"

text \<open>
  \<open>push\<close> and \<open>pop\<close> as one thread runs them: the compare-and-swap finds the head it
  has just loaded and succeeds.  \<open>pop\<close> returns the old head and leaves the popped
  cell untouched.
\<close>

definition push :: "nat \<Rightarrow> 'a stack_mem_scheme \<Rightarrow> 'a stack_mem_scheme" where
  "push v s =
     s\<lparr>data := (data s)(v := (data s v)\<lparr>ptr_to_next := head s\<rparr>), head := Some v\<rparr>"

definition pop :: "'a stack_mem_scheme \<Rightarrow> nat option \<times> 'a stack_mem_scheme" where
  "pop s =
     (case head s of
        None \<Rightarrow> (None, s)
      | Some h \<Rightarrow> (Some h, s\<lparr>head := ptr_to_next (data s h)\<rparr>))"

text \<open>A sequence of \<open>k\<close> pops, collecting what each returns.\<close>

fun pops :: "nat \<Rightarrow> 'a stack_mem_scheme \<Rightarrow> nat option list \<times> 'a stack_mem_scheme" where
  "pops 0 s = ([], s)"
| "pops (Suc k) s =
     (let (r, s') = pop s; (rs, s'') = pops k s' in (r # rs, s''))"

section \<open>The timeout map (timeout\_timer.hpp)\<close>

text \<open>
  \<open>keys_\<close> is an \<open>unordered_map\<close> from a client pointer to a time point.  It is an
  association list here, the order of the list standing for the order in which the
  container is iterated; keys are slab indices, time points are ticks of the steady
  clock in nanoseconds.  \<open>keys_[key] = now\<close> overwrites the entry or inserts one.
\<close>

definition TimeoutTimer_set :: "int \<Rightarrow> nat \<Rightarrow> (nat \<times> int) list \<Rightarrow> (nat \<times> int) list" where
  "TimeoutTimer_set now key ks = AList.update key now ks"

definition TimeoutTimer_unset :: "nat \<Rightarrow> (nat \<times> int) list \<Rightarrow> (nat \<times> int) list" where
  "TimeoutTimer_unset key ks =
     (if map_of ks key \<noteq> None then AList.delete key ks else ks)"

text \<open>
  \<open>duration_cast<milliseconds>(now - then).count()\<close> divides the nanoseconds by
  \<open>10\<^sup>6\<close> rounding towards zero; the result is stored in an \<open>int\<close>, which keeps its
  low 32 bits read as two's complement.
\<close>

definition duration_cast_ms :: "int \<Rightarrow> int" where
  "duration_cast_ms d = sgn d * (\<bar>d\<bar> div 1000000)"

definition time_delta :: "int \<Rightarrow> int \<Rightarrow> int" where
  "time_delta now thn = sint (word_of_int (duration_cast_ms (now - thn)) :: 32 word)"

text \<open>
  The first loop of \<open>prune_timed_out_keys\<close>: the clock is read once for every entry
  visited; \<open>clock i\<close> is the time point read at the \<open>i\<close>-th entry.
\<close>

fun timed_out_keys :: "int \<Rightarrow> (nat \<Rightarrow> int) \<Rightarrow> nat \<Rightarrow> (nat \<times> int) list \<Rightarrow> nat list" where
  "timed_out_keys timeout_interval clock i [] = []"
| "timed_out_keys timeout_interval clock i ((key, thn) # ks) =
     (if time_delta (clock i) thn > timeout_interval
      then key # timed_out_keys timeout_interval clock (Suc i) ks
      else timed_out_keys timeout_interval clock (Suc i) ks)"

text \<open>The second loop erases every collected key; the function returns the collected keys.\<close>

definition prune_timed_out_keys ::
  "int \<Rightarrow> (nat \<Rightarrow> int) \<Rightarrow> (nat \<times> int) list \<Rightarrow> nat list \<times> (nat \<times> int) list" where
  "prune_timed_out_keys timeout_interval clock ks =
     (let timed_out = timed_out_keys timeout_interval clock 0 ks
      in (timed_out, fold AList.delete timed_out ks))"

section \<open>The session write (basic\_client.hpp, client\_session.hpp)\<close>





section \<open>The connection pool (client\_pool.hpp)\<close>

text \<open>
  Event flags of \<open><sys/epoll.h>\<close> and the \<open>errno\<close> value \<open>EAGAIN\<close> of
  \<open><errno.h>\<close>, with their Linux values; the flags of an event are an \<open>int\<close>, a
  32-bit word here.
\<close>

definition EPOLLIN :: "32 word" where "EPOLLIN = 0x001"
definition EPOLLPRI :: "32 word" where "EPOLLPRI = 0x002"
definition EPOLLERR :: "32 word" where "EPOLLERR = 0x008"
definition EPOLLHUP :: "32 word" where "EPOLLHUP = 0x010"
definition EPOLLRDHUP :: "32 word" where "EPOLLRDHUP = 0x2000"
definition EPOLLONESHOT :: "32 word" where "EPOLLONESHOT = 0x40000000"
definition EPOLLET :: "32 word" where "EPOLLET = 0x80000000"
definition EAGAIN :: int where "EAGAIN = 11"

definition kFlags :: "32 word" where
  "kFlags = EPOLLIN OR EPOLLET OR EPOLLHUP OR EPOLLRDHUP OR EPOLLPRI OR EPOLLONESHOT"

text \<open>
  What the pool does to the outside is kept as a trace, oldest call first: the calls of
  the endpoint primitives, of the waiter and of the timeout timer, and the hooks of the
  packet sink, each hook with the \<open>uuid\<close> of the session it is given.
  \<open>Client_write\<close> is a call of \<open>BasicClient::write\<close> on the client's descriptor
  (its sends are the subject of the section on the session write).
\<close>

datatype call =
    Endpoint_close int
  | Endpoint_read int
  | Ioctl_atmark int
  | Endpoint_read_oob int
  | Endpoint_accept int
  | Endpoint_unblock int
  | Epoll_add nat int "32 word"
  | Epoll_rearm nat int "32 word"
  | Epoll_remove int
  | Timer_set nat int
  | Client_write int string int
  | Client_accepted int
  | Client_closed int
  | Client_error int
  | Client_data_received int string int
  | Client_oob_received int char

record pool = stack_mem +
  keys :: "(nat \<times> int) list"
  trace :: "call list"

definition emit :: "call list \<Rightarrow> pool \<Rightarrow> pool" where
  "emit cs s = s\<lparr>trace := trace s @ cs\<rparr>"

text \<open>\<open>timeout_timer_.set(client)\<close>, with the clock it reads.\<close>

definition timeout_timer_set :: "int \<Rightarrow> nat \<Rightarrow> pool \<Rightarrow> pool" where
  "timeout_timer_set now client s =
     emit [Timer_set client now] (s\<lparr>keys := TimeoutTimer_set now client (keys s)\<rparr>)"

definition rearm :: "nat \<Rightarrow> pool \<Rightarrow> pool" where
  "rearm client s = emit [Epoll_rearm client (sfd (data s client)) kFlags] s"

definition terminate :: "nat \<Rightarrow> pool \<Rightarrow> pool" where
  "terminate client s =
     (let fd = sfd (data s client) in
      if fd = 0 then s
      else (let s1 = emit [Endpoint_close fd, Epoll_remove fd] s;
                s2 = s1\<lparr>data := (data s1)(client := (data s1 client)\<lparr>sfd := 0\<rparr>)\<rparr>
            in push client s2))"

text \<open>
  The packet sink is \<open>BasicClientHandler\<close>, which derives from all five
  \<open>enable_client_*\<close> tags, so every \<open>have_client_*\<close> builds a \<open>ClientSession\<close>
  and calls the sink, and the sink calls the user's callback if one is bound.  The
  callback runs inside the hook, before the pool goes on, and reaches the pool through the
  session it is given: \<open>write\<close>, \<open>rearm\<close> and \<open>terminate\<close> on this client.
  A sink is what the callbacks do through the session during a hook, as a function of
  the calls made so far (the last of them is the hook itself); a callback that is not
  bound, or that leaves the session alone, gives the empty list.  A callback that throws
  is outside this model.
\<close>

datatype session_call = Session_write string int | Session_rearm | Session_terminate

type_synonym sink = "call list \<Rightarrow> session_call list"

fun session_calls :: "nat \<Rightarrow> session_call list \<Rightarrow> pool \<Rightarrow> pool" where
  "session_calls client [] s = s"
| "session_calls client (Session_write buff sz # cs) s =
     session_calls client cs (emit [Client_write (client_sfd (data s client)) buff sz] s)"
| "session_calls client (Session_rearm # cs) s = session_calls client cs (rearm client s)"
| "session_calls client (Session_terminate # cs) s =
     session_calls client cs (terminate client s)"

definition fire :: "sink \<Rightarrow> nat \<Rightarrow> call \<Rightarrow> pool \<Rightarrow> pool" where
  "fire packet_sink client hook s =
     (let s1 = emit [hook] s in session_calls client (packet_sink (trace s1)) s1)"

definition have_client_accepted :: "sink \<Rightarrow> nat \<Rightarrow> pool \<Rightarrow> pool" where
  "have_client_accepted packet_sink client s =
     fire packet_sink client (Client_accepted (uuid (data s client))) s"

definition have_client_closed :: "sink \<Rightarrow> nat \<Rightarrow> pool \<Rightarrow> pool" where
  "have_client_closed packet_sink client s =
     fire packet_sink client (Client_closed (uuid (data s client))) s"

definition have_client_error :: "sink \<Rightarrow> nat \<Rightarrow> pool \<Rightarrow> pool" where
  "have_client_error packet_sink client s =
     fire packet_sink client (Client_error (uuid (data s client))) s"

definition have_client_oob_received :: "sink \<Rightarrow> nat \<Rightarrow> char \<Rightarrow> pool \<Rightarrow> pool" where
  "have_client_oob_received packet_sink client oobdata s =
     fire packet_sink client (Client_oob_received (uuid (data s client)) oobdata) s"

definition have_client_data_received :: "sink \<Rightarrow> nat \<Rightarrow> string \<Rightarrow> int \<Rightarrow> pool \<Rightarrow> pool" where
  "have_client_data_received packet_sink client buf nbytes s =
     fire packet_sink client (Client_data_received (uuid (data s client)) buf nbytes) s"

definition terminate_on_close :: "sink \<Rightarrow> nat \<Rightarrow> pool \<Rightarrow> pool" where
  "terminate_on_close packet_sink client s =
     (let fd = sfd (data s client) in
      if fd = 0 then s
      else (let s1 = emit [Endpoint_close fd, Epoll_remove fd] s;
                s2 = s1\<lparr>data := (data s1)(client := (data s1 client)\<lparr>sfd := 0\<rparr>)\<rparr>;
                s3 = have_client_closed packet_sink client s2
            in push client s3))"

definition terminate_on_error :: "sink \<Rightarrow> nat \<Rightarrow> pool \<Rightarrow> pool" where
  "terminate_on_error packet_sink client s =
     (let fd = sfd (data s client) in
      if fd = 0 then s
      else (let s1 = emit [Endpoint_close fd, Epoll_remove fd] s;
                s2 = s1\<lparr>data := (data s1)(client := (data s1 client)\<lparr>sfd := 0\<rparr>)\<rparr>;
                s3 = have_client_error packet_sink client s2
            in push client s3))"

text \<open>
  \<open>add_client\<close>: \<open>add_ret\<close> is what \<open>epoll_ctl\<close> returns for the registration,
  \<open>now\<close> the clock read by the timer.  The placement \<open>new\<close> runs the
  \<open>BasicClient\<close> constructor only: it sets \<open>sfd_\<close> and clears the buffer, the
  \<open>uuid\<close> and the link of the cell stay.
\<close>

definition add_client :: "sink \<Rightarrow> int \<Rightarrow> int \<Rightarrow> int \<Rightarrow> pool \<Rightarrow> nat option \<times> pool" where
  "add_client packet_sink add_ret now fd s =
     (case pop s of
        (None, s0) \<Rightarrow> (None, s0)
      | (Some client, s0) \<Rightarrow>
          (let s1 = s0\<lparr>data := (data s0)(client :=
                         (data s0 client)\<lparr>client_sfd := fd, message_buff := []\<rparr>)\<rparr>;
               s2 = s1\<lparr>data := (data s1)(client := (data s1 client)\<lparr>sfd := fd\<rparr>)\<rparr>;
               s3 = have_client_accepted packet_sink client s2;
               s4 = emit [Epoll_add client fd kFlags] s3
           in if add_ret \<noteq> 0 then (None, terminate client s4)
              else (Some client, timeout_timer_set now client s4)))"

text \<open>
  \<open>BasicClient::read\<close>: one \<open>recv\<close> into the client's buffer.  The result of the
  \<open>recv\<close> is given from outside as (return value, \<open>errno\<close>, bytes stored).
\<close>

definition BasicClient_read :: "int \<times> int \<times> string \<Rightarrow> nat \<Rightarrow> pool \<Rightarrow> pool" where
  "BasicClient_read r client s =
     (case r of (nbytes, errno, bytes) \<Rightarrow>
        (let s1 = emit [Endpoint_read (client_sfd (data s client))] s
         in if nbytes > 0
            then s1\<lparr>data := (data s1)(client := (data s1 client)\<lparr>message_buff := bytes\<rparr>)\<rparr>
            else s1))"

text \<open>
  The loop of \<open>read_ready_triggered\<close>; \<open>recv k\<close> is the result of the \<open>k\<close>-th read
  of the dispatch.  The loop ends only when a read returns 0 or -1, so it is a partial
  function: \<open>None\<close> is the loop that never ends.
\<close>

partial_function (option) read_ready_triggered ::
  "sink \<Rightarrow> (nat \<Rightarrow> int \<times> int \<times> string) \<Rightarrow> nat \<Rightarrow> nat \<Rightarrow> pool \<Rightarrow> pool option" where
  "read_ready_triggered packet_sink recv k client s =
     (let nbytes = fst (recv k); errno = fst (snd (recv k));
          s1 = BasicClient_read (recv k) client s
      in if nbytes = -1 \<and> errno = EAGAIN then Some s1
         else if nbytes = -1 then Some (terminate_on_error packet_sink client s1)
         else if nbytes = 0 then Some (terminate_on_close packet_sink client s1)
         else read_ready_triggered packet_sink recv (Suc k) client
                (have_client_data_received packet_sink client
                   (message_buff (data s1 client)) nbytes s1))"

declare read_ready_triggered.simps [code]

text \<open>
  \<open>BasicClient::read_oob\<close>: the \<open>ioctl\<close> stores \<open>mark\<close>; only when \<open>mark\<close> is
  neither -1 nor 0 one byte is read out of band.  The outside gives
  (\<open>mark\<close>, return value of the \<open>recv\<close>, \<open>errno\<close>, the byte).
\<close>

definition BasicClient_read_oob :: "int \<times> int \<times> int \<times> char \<Rightarrow> nat \<Rightarrow> pool \<Rightarrow> int \<times> char \<times> pool" where
  "BasicClient_read_oob r client s =
     (case r of (mark, ret, errno, byte) \<Rightarrow>
        (let fd = client_sfd (data s client); s1 = emit [Ioctl_atmark fd] s
         in if mark = -1 then (-1, CHR 0x00, s1)
            else if mark = 0 then (0, CHR 0x00, s1)
            else (ret, if ret > 0 then byte else CHR 0x00, emit [Endpoint_read_oob fd] s1)))"

partial_function (option) pri_read_ready_triggered ::
  "sink \<Rightarrow> (nat \<Rightarrow> int \<times> int \<times> int \<times> char) \<Rightarrow> nat \<Rightarrow> nat \<Rightarrow> pool \<Rightarrow> pool option" where
  "pri_read_ready_triggered packet_sink oob k client s =
     (let errno = fst (snd (snd (oob k)));
          mark = fst (BasicClient_read_oob (oob k) client s);
          oobdata = fst (snd (BasicClient_read_oob (oob k) client s));
          s1 = snd (snd (BasicClient_read_oob (oob k) client s))
      in if mark = -1 \<and> errno = EAGAIN then Some s1
         else if mark = -1 then Some (terminate_on_error packet_sink client s1)
         else if mark = 0 then Some s1
         else pri_read_ready_triggered packet_sink oob (Suc k) client
                (have_client_oob_received packet_sink client oobdata s1))"

declare pri_read_ready_triggered.simps [code]

text \<open>
  \<open>trigger\<close>: what the outside supplies to one dispatch is the clock read by each of the
  two \<open>timeout_timer_.set\<close> calls and the results of the reads.
\<close>

record dispatch_env =
  now_pri :: int
  oob_results :: "nat \<Rightarrow> int \<times> int \<times> int \<times> char"
  now_in :: int
  recv_results :: "nat \<Rightarrow> int \<times> int \<times> string"

definition trigger :: "sink \<Rightarrow> dispatch_env \<Rightarrow> nat \<Rightarrow> 32 word \<Rightarrow> pool \<Rightarrow> pool option" where
  "trigger packet_sink env client flags s =
     (if flags AND EPOLLERR \<noteq> 0 then Some (terminate_on_error packet_sink client s)
      else if flags AND EPOLLHUP \<noteq> 0 \<or> flags AND EPOLLRDHUP \<noteq> 0
      then Some (terminate_on_close packet_sink client (have_client_closed packet_sink client s))
      else Option.bind
             (if flags AND EPOLLPRI \<noteq> 0
              then pri_read_ready_triggered packet_sink (oob_results env) 0 client
                     (timeout_timer_set (now_pri env) client s)
              else Some s)
             (\<lambda>s1. if flags AND EPOLLIN \<noteq> 0
                   then read_ready_triggered packet_sink (recv_results env) 0 client
                          (timeout_timer_set (now_in env) client s1)
                   else Some s1))"

section \<open>The listener pool (server\_pool.hpp)\<close>

text \<open>
  The accept loop of \<open>ServerPool::trigger\<close>.  \<open>accepts k\<close> gives, for the \<open>k\<close>-th
  \<open>accept\<close>, the descriptor it returns, what \<open>endpoint_unblock\<close> returns for it, and
  the two values \<open>add_client\<close> takes from outside.  The result of \<open>add_client\<close> is
  dropped, as in the source.
\<close>

partial_function (option) accept_loop ::
  "sink \<Rightarrow> (nat \<Rightarrow> int \<times> int \<times> int \<times> int) \<Rightarrow> nat \<Rightarrow> int \<Rightarrow> pool \<Rightarrow> pool option" where
  "accept_loop packet_sink accepts k server_sfd s =
     (let cfd = fst (accepts k); unblock_ret = fst (snd (accepts k));
          add_ret = fst (snd (snd (accepts k))); now = snd (snd (snd (accepts k)));
          s1 = emit [Endpoint_accept server_sfd] s
      in if cfd = -1 then Some s1
         else if unblock_ret \<noteq> 0
         then accept_loop packet_sink accepts (Suc k) server_sfd
                (emit [Endpoint_unblock cfd, Endpoint_close cfd] s1)
         else accept_loop packet_sink accepts (Suc k) server_sfd
                (snd (add_client packet_sink add_ret now cfd
                        (emit [Endpoint_unblock cfd] s1))))"

declare accept_loop.simps [code]

definition ServerPool_trigger ::
  "sink \<Rightarrow> (nat \<Rightarrow> int \<times> int \<times> int \<times> int) \<Rightarrow> int \<Rightarrow> 32 word \<Rightarrow> pool \<Rightarrow> pool option" where
  "ServerPool_trigger packet_sink accepts server_sfd flags s =
     (if flags = EPOLLHUP \<or> flags = EPOLLERR
      then Some (emit [Endpoint_close server_sfd] s)
      else accept_loop packet_sink accepts 0 server_sfd s)"

section \<open>The shutdown chain of the waiter (epoll.hpp)\<close>

text \<open>
  The part of \<open>EpollWaiter\<close> that the shutdown uses: the atomic \<open>instance_count_\<close>,
  the number of bytes waiting in the self-pipe, whether the one-shot registration of the
  self-pipe is armed, the workers that are inside \<open>wait\<close>, and how often \<open>close\<close> has
  signalled.  The constructor registers the self-pipe (armed, nothing written).
\<close>

record waiter =
  instance_count :: int
  selfpipe :: nat
  armed :: bool
  waiting :: "nat list"
  close_calls :: nat

datatype error = Runtime_error

definition EpollWaiter :: waiter where
  "EpollWaiter =
     \<lparr>instance_count = 0, selfpipe = 0, armed = True, waiting = [], close_calls = 0\<rparr>"

text \<open>
  \<open>close\<close>: \<open>ctl j\<close> is what the \<open>epoll_ctl\<close> of the \<open>j\<close>-th call of \<open>close\<close>
  returns; on -1 the function throws, otherwise the registration is armed again and one
  byte is written to the pipe.
\<close>

definition close :: "(nat \<Rightarrow> int) \<Rightarrow> waiter \<Rightarrow> error + waiter" where
  "close ctl w =
     (if ctl (close_calls w) = -1 then Inl Runtime_error
      else Inr (w\<lparr>armed := True, selfpipe := selfpipe w + 1,
                  close_calls := close_calls w + 1\<rparr>))"

text \<open>Entering \<open>wait\<close>: \<open>++instance_count_\<close>, then the worker is in the loop.\<close>

definition wait_enter :: "nat \<Rightarrow> waiter \<Rightarrow> waiter" where
  "wait_enter me w =
     w\<lparr>instance_count := instance_count w + 1, waiting := waiting w @ [me]\<rparr>"

text \<open>
  The branch of \<open>wait\<close> for the event of the self-pipe, run by worker \<open>me\<close>: read the
  byte, decrement the counter, call \<open>close\<close> when the decremented value is positive,
  leave the loop.
\<close>

definition wait_selfpipe :: "(nat \<Rightarrow> int) \<Rightarrow> nat \<Rightarrow> waiter \<Rightarrow> error + waiter" where
  "wait_selfpipe ctl me w =
     (let w1 = w\<lparr>selfpipe := selfpipe w - 1\<rparr>;
          w2 = w1\<lparr>instance_count := instance_count w1 - 1\<rparr>
      in case (if instance_count w2 > 0 then close ctl w2 else Inr w2) of
           Inl e \<Rightarrow> Inl e
         | Inr w3 \<Rightarrow> Inr (w3\<lparr>waiting := remove1 me (waiting w3)\<rparr>))"

text \<open>
  The kernel hands the event of the self-pipe to a worker only while the registration is
  armed and a byte is waiting, to one worker inside \<open>wait\<close>, and the one-shot
  registration is disarmed by the delivery.  \<open>deliveries ctl ws w\<close> runs the shutdown
  with the events going to the workers \<open>ws\<close> in this order; \<open>None\<close> says that the
  kernel has no event for the next worker of the list.
\<close>

definition delivers :: "waiter \<Rightarrow> nat \<Rightarrow> bool" where
  "delivers w me = (armed w \<and> 0 < selfpipe w \<and> me \<in> set (waiting w))"

fun deliveries :: "(nat \<Rightarrow> int) \<Rightarrow> nat list \<Rightarrow> waiter \<Rightarrow> (error + waiter) option" where
  "deliveries ctl [] w = Some (Inr w)"
| "deliveries ctl (me # ws) w =
     (if delivers w me
      then (case wait_selfpipe ctl me (w\<lparr>armed := False\<rparr>) of
              Inl e \<Rightarrow> Some (Inl e)
            | Inr w' \<Rightarrow> deliveries ctl ws w')
      else None)"

section \<open>The reaper's pass and histories of the pool\<close>

text \<open>
  One turn of the loop of \<open>TimeoutTimer::do_run\<close> while the timer runs: under the
  lock the map is pruned; then, the lock released, the callback is called with the keys
  that were returned, if there are any.
\<close>

definition do_run_pass ::
  "int \<Rightarrow> (nat \<Rightarrow> int) \<Rightarrow> (nat list \<Rightarrow> pool \<Rightarrow> pool) \<Rightarrow> pool \<Rightarrow> pool" where
  "do_run_pass timeout_interval clock callback s =
     (let timed_out = fst (prune_timed_out_keys timeout_interval clock (keys s));
          s1 = s\<lparr>keys := snd (prune_timed_out_keys timeout_interval clock (keys s))\<rparr>
      in if timed_out \<noteq> [] then callback timed_out s1 else s1)"

text \<open>
  The callback that \<open>ClientPool::run\<close> builds for the timer: \<open>terminate_on_close\<close>
  for every client it is given.  \<open>reaper_pass\<close> is a turn of the timer with this
  callback.  (\<open>TimeoutTimer::run\<close> lets its worker reach the callback through a
  reference to the \<open>std::function\<close> that \<open>ClientPool::run\<close> passes as a temporary;
  \<open>reaper_pass\<close> is the turn for a worker that finds the callback intact.)
\<close>

definition timed_out_clients_fn :: "sink \<Rightarrow> nat list \<Rightarrow> pool \<Rightarrow> pool" where
  "timed_out_clients_fn packet_sink timed_out_clients s =
     fold (terminate_on_close packet_sink) timed_out_clients s"

definition reaper_pass :: "sink \<Rightarrow> int \<Rightarrow> (nat \<Rightarrow> int) \<Rightarrow> pool \<Rightarrow> pool" where
  "reaper_pass packet_sink timeout_interval clock s =
     do_run_pass timeout_interval clock (timed_out_clients_fn packet_sink) s"

text \<open>
  The calls that reach a running pool, as data: the listener hands over a descriptor, a
  worker dispatches an event, a handler rearms or terminates through a session outside
  a hook, the reaper makes a pass.  \<open>run_ops\<close> performs a history of such calls one after the
  other; it is \<open>None\<close> when a dispatch in it does not return.
\<close>

datatype pool_op =
    Op_add_client int int int
  | Op_trigger dispatch_env nat "32 word"
  | Op_rearm nat
  | Op_terminate nat
  | Op_reaper int "nat \<Rightarrow> int"

fun apply_op :: "sink \<Rightarrow> pool_op \<Rightarrow> pool \<Rightarrow> pool option" where
  "apply_op packet_sink (Op_add_client add_ret now fd) s =
     Some (snd (add_client packet_sink add_ret now fd s))"
| "apply_op packet_sink (Op_trigger env client flags) s = trigger packet_sink env client flags s"
| "apply_op packet_sink (Op_rearm client) s = Some (rearm client s)"
| "apply_op packet_sink (Op_terminate client) s = Some (terminate client s)"
| "apply_op packet_sink (Op_reaper timeout_interval clock) s =
     Some (reaper_pass packet_sink timeout_interval clock s)"

fun run_ops :: "sink \<Rightarrow> pool_op list \<Rightarrow> pool \<Rightarrow> pool option" where
  "run_ops packet_sink [] s = Some s"
| "run_ops packet_sink (x # xs) s =
     Option.bind (apply_op packet_sink x s) (run_ops packet_sink xs)"

text \<open>
  \<open>arms x s c\<close>: the call \<open>x\<close>, made in state \<open>s\<close>, reaches
  \<open>timeout_timer_.set\<close> for the slot \<open>c\<close>.  This is \<open>add_client\<close> when it obtains
  \<open>c\<close> from the stack and registers it, and the dispatch of a priority or readable
  event for \<open>c\<close>.  \<open>armed_in xs s c\<close>: some call of the history \<open>xs\<close>, started in
  \<open>s\<close>, arms \<open>c\<close>.
\<close>

fun arms :: "pool_op \<Rightarrow> pool \<Rightarrow> nat \<Rightarrow> bool" where
  "arms (Op_add_client add_ret now fd) s c = (add_ret = 0 \<and> head s = Some c)"
| "arms (Op_trigger env client flags) s c =
     (client = c \<and> flags AND EPOLLERR = 0 \<and> flags AND EPOLLHUP = 0 \<and> flags AND EPOLLRDHUP = 0
      \<and> (flags AND EPOLLPRI \<noteq> 0 \<or> flags AND EPOLLIN \<noteq> 0))"
| "arms (Op_rearm client) s c = False"
| "arms (Op_terminate client) s c = False"
| "arms (Op_reaper timeout_interval clock) s c = False"

fun armed_in :: "sink \<Rightarrow> pool_op list \<Rightarrow> pool \<Rightarrow> nat \<Rightarrow> bool" where
  "armed_in packet_sink [] s c = False"
| "armed_in packet_sink (x # xs) s c =
     (arms x s c \<or> (case apply_op packet_sink x s of
                       None \<Rightarrow> False
                     | Some s' \<Rightarrow> armed_in packet_sink xs s' c))"

section \<open>Concrete states for the examples\<close>

text \<open>
  An allocated slab of three cells as \<open>malloc\<close> may leave it: every cell holds
  leftover values.
\<close>

definition raw_cell :: node where
  "raw_cell = \<lparr>uuid = 77, sfd = 5, ptr_to_next = Some 9, client_sfd = 3, message_buff = ''x''\<rparr>"

definition raw_slab :: stack_mem where
  "raw_slab = \<lparr>allocated = True, data = (\<lambda>_. raw_cell), capacity = 3, head = None\<rparr>"

text \<open>
  The callbacks of the echo server (echo\_server\_impl.hpp): the data callback writes the
  received bytes back and rearms; the other callbacks leave the session alone.
\<close>

definition echo_sink :: sink where
  "echo_sink cs =
     (if cs = [] then []
      else case last cs of
             Client_data_received u buf n \<Rightarrow> [Session_write buf n, Session_rearm]
           | _ \<Rightarrow> [])"


text \<open>
  A pool of two slots on such a slab, initialised as \<open>ClientPool::run\<close> does, and the
  same pool after the listener has handed over descriptor 7, and after it has also handed
  over descriptor 8 (no free slot is left then).
\<close>

definition raw_pool :: pool where
  "raw_pool = \<lparr>allocated = True, data = (\<lambda>_. raw_cell), capacity = 2, head = None,
                keys = [], trace = []\<rparr>"

definition fresh_pool :: pool where
  "fresh_pool = init raw_pool"

definition one_client :: pool where
  "one_client = snd (add_client echo_sink 0 1000 7 fresh_pool)"

definition full_pool :: pool where
  "full_pool = snd (add_client echo_sink 0 2000 8 one_client)"

text \<open>Reads of one dispatch: five bytes, then nothing more to read.\<close>

definition hello_then_eagain :: "nat \<Rightarrow> int \<times> int \<times> string" where
  "hello_then_eagain k = (if k = 0 then (5, 0, ''hello'') else (-1, EAGAIN, []))"

definition no_oob :: "nat \<Rightarrow> int \<times> int \<times> int \<times> char" where
  "no_oob k = (0, 0, 0, CHR 0x00)"

definition echo_env :: dispatch_env where
  "echo_env = \<lparr>now_pri = 3000, oob_results = no_oob, now_in = 3000,
                recv_results = hello_then_eagain\<rparr>"

text \<open>The hooks of the packet sink among the calls of a trace.\<close>

fun is_hook :: "call \<Rightarrow> bool" where
  "is_hook (Client_accepted u) = True"
| "is_hook (Client_closed u) = True"
| "is_hook (Client_error u) = True"
| "is_hook (Client_data_received u buf n) = True"
| "is_hook (Client_oob_received u b) = True"
| "is_hook c = False"

text \<open>
  The listener's accepts: descriptor 9 arrives and is set nonblocking, then \<open>accept\<close>
  returns -1; and a listener on which \<open>accept\<close> returns -1 at once.
\<close>

definition accept_9 :: "nat \<Rightarrow> int \<times> int \<times> int \<times> int" where
  "accept_9 k = (if k = 0 then (9, 0, 0, 5000) else (-1, 0, 0, 0))"

definition accept_none :: "nat \<Rightarrow> int \<times> int \<times> int \<times> int" where
  "accept_none k = (-1, 0, 0, 0)"




text \<open>An \<open>epoll_ctl\<close> that always succeeds.\<close>

definition ctl_ok :: "nat \<Rightarrow> int" where
  "ctl_ok j = 0"







section \<open>The concrete states, computed\<close>

lemma fresh_pool_eq:
  "fresh_pool = raw_pool\<lparr>data := (data raw_pool)(0 := StackNode None, 1 := (StackNode (Some 0))\<lparr>uuid := 1\<rparr>), head := Some 1\<rparr>"
  unfolding fresh_pool_def init_def raw_pool_def
  by (simp add: init_loop.simps[of 0] init_loop.simps[of 1] Let_def)

lemma one_client_eq:
  "one_client = raw_pool\<lparr>data := (data raw_pool)(0 := StackNode None,
        1 := \<lparr>uuid = 1, sfd = 7, ptr_to_next = Some 0, client_sfd = 7, message_buff = []\<rparr>),
      head := Some 0, keys := [(1, 1000)], trace := [Client_accepted 1, Epoll_add 1 7 kFlags, Timer_set 1 1000]\<rparr>"
  unfolding one_client_def fresh_pool_eq
  by (simp add: add_client_def pop_def raw_pool_def StackNode_def have_client_accepted_def
        fire_def echo_sink_def timeout_timer_set_def emit_def TimeoutTimer_set_def Let_def
        fun_upd_twist)

lemma full_pool_eq:
  "full_pool = raw_pool\<lparr>data := (data raw_pool)(
        0 := \<lparr>uuid = 0, sfd = 8, ptr_to_next = None, client_sfd = 8, message_buff = []\<rparr>,
        1 := \<lparr>uuid = 1, sfd = 7, ptr_to_next = Some 0, client_sfd = 7, message_buff = []\<rparr>),
      head := None, keys := [(1, 1000), (0, 2000)],
      trace := [Client_accepted 1, Epoll_add 1 7 kFlags, Timer_set 1 1000,
                Client_accepted 0, Epoll_add 0 8 kFlags, Timer_set 0 2000]\<rparr>"
  unfolding full_pool_def one_client_eq
  by (simp add: add_client_def pop_def raw_pool_def StackNode_def have_client_accepted_def
        fire_def echo_sink_def timeout_timer_set_def emit_def TimeoutTimer_set_def Let_def
        fun_upd_twist)

lemma echo_sink_simps:
  "echo_sink (cs @ [Client_accepted u]) = []"
  "echo_sink (cs @ [Client_closed u]) = []"
  "echo_sink (cs @ [Client_error u]) = []"
  "echo_sink (cs @ [Client_data_received u b n]) = [Session_write b n, Session_rearm]"
  by (simp_all add: echo_sink_def)

section \<open>The free stack after initialisation\<close>

lemma init_loop_inv:
  "0 \<le> i \<Longrightarrow> i < capacity s \<Longrightarrow>
     head (init_loop i s) = (if i + 1 < capacity s then Some (nat (capacity s - 1)) else head s)
   \<and> capacity (init_loop i s) = capacity s
   \<and> allocated (init_loop i s) = allocated s
   \<and> (\<forall>j. data (init_loop i s) j =
          (if nat i < j \<and> int j < capacity s
           then (StackNode (Some (j - 1)))\<lparr>uuid := int j\<rparr> else data s j))"
proof (induction i s rule: init_loop.induct)
  case (1 i s)
  show ?case
  proof (cases "i + 1 < capacity s")
    case False
    have eq0: "init_loop i s = s"
      using False by (subst init_loop.simps) (simp add: Let_def)
    show ?thesis unfolding eq0 using False "1.prems" by auto
  next
    case True
    let ?s = "s\<lparr>data := (data s)(nat (i + 1) := (StackNode (Some (nat (i + 1 - 1))))\<lparr>uuid := i + 1\<rparr>),
                head := Some (nat (i + 1))\<rparr>"
    have eq: "init_loop i s = init_loop (i + 1) ?s"
      using True by (subst init_loop.simps) (simp add: Let_def)
    have ih: "head (init_loop (i + 1) ?s) = (if i + 1 + 1 < capacity ?s then Some (nat (capacity ?s - 1)) else head ?s)
   \<and> capacity (init_loop (i + 1) ?s) = capacity ?s
   \<and> allocated (init_loop (i + 1) ?s) = allocated ?s
   \<and> (\<forall>j. data (init_loop (i + 1) ?s) j =
          (if nat (i + 1) < j \<and> int j < capacity ?s
           then (StackNode (Some (j - 1)))\<lparr>uuid := int j\<rparr> else data ?s j))"
      using "1.IH"[OF refl True] "1.prems" True by simp
    show ?thesis unfolding eq using ih "1.prems" True
      by (auto simp: nat_add_distrib nat_diff_distrib)
  qed
qed

lemma pops_chain:
  "head s = Some k \<Longrightarrow>
   (\<forall>j\<le>k. ptr_to_next (data s j) = (if j = 0 then None else Some (j - 1))) \<Longrightarrow>
   pops (Suc k) s = (map Some (rev [0..<Suc k]), s\<lparr>head := None\<rparr>)"
proof (induction k arbitrary: s)
  case 0
  then show ?case by (simp add: pop_def)
next
  case (Suc k)
  let ?s = "s\<lparr>head := Some k\<rparr>"
  have p: "pop s = (Some (Suc k), ?s)" using Suc.prems by (simp add: pop_def)
  have "pops (Suc k) ?s = (map Some (rev [0..<Suc k]), ?s\<lparr>head := None\<rparr>)"
    by (rule Suc.IH) (use Suc.prems in auto)
  then show ?case using p by (simp del: pops.simps(2) add: pops.simps(2)[of "Suc k"])
qed


lemma init_chain:
  assumes "allocated s" "1 \<le> capacity s"
  shows "head (init s) = Some (nat (capacity s) - 1)"
    and "\<forall>j < nat (capacity s). uuid (data (init s) j) = int j"
    and "\<forall>j < nat (capacity s). ptr_to_next (data (init s) j) = (if j = 0 then None else Some (j - 1))"
proof -
  let ?s0 = "s\<lparr>data := (data s)(0 := StackNode None), head := Some 0\<rparr>"
  have i: "init s = init_loop 0 ?s0" using assms by (simp add: init_def)
  have inv: "head (init_loop 0 ?s0) = (if 0 + 1 < capacity ?s0 then Some (nat (capacity ?s0 - 1)) else head ?s0)
   \<and> capacity (init_loop 0 ?s0) = capacity ?s0
   \<and> allocated (init_loop 0 ?s0) = allocated ?s0
   \<and> (\<forall>j. data (init_loop 0 ?s0) j =
          (if nat 0 < j \<and> int j < capacity ?s0
           then (StackNode (Some (j - 1)))\<lparr>uuid := int j\<rparr> else data ?s0 j))"
    by (rule init_loop_inv) (use assms in auto)
  show "head (init s) = Some (nat (capacity s) - 1)"
    unfolding i using inv assms by (auto simp: nat_diff_distrib)
  show "\<forall>j < nat (capacity s). uuid (data (init s) j) = int j"
    unfolding i using inv assms by (auto simp: StackNode_def)
  show "\<forall>j < nat (capacity s). ptr_to_next (data (init s) j) = (if j = 0 then None else Some (j - 1))"
    unfolding i using inv assms by (auto simp: StackNode_def)
qed

text \<open>
  Claim C7.  After \<open>init\<close> over an allocated slab of \<open>n \<ge> 1\<close> cells, \<open>n\<close> pops
  return the cells \<open>n - 1, n - 2, \<dots>, 0\<close> in this order; each of them carries the
  identifier equal to its index; the last one popped is cell 0 and its link is null; and
  one more pop, on the stack that is now empty, returns null.
\<close>

theorem init_pop_descending:
  assumes "allocated s" and "1 \<le> capacity s"
  shows "case pops (nat (capacity s)) (init s) of
           (rs, s') \<Rightarrow>
             rs = map Some (rev [0..<nat (capacity s)])
           \<and> map (\<lambda>i. uuid (data s' i)) (rev [0..<nat (capacity s)])
               = map int (rev [0..<nat (capacity s)])
           \<and> last rs = Some 0 \<and> ptr_to_next (data s' 0) = None
           \<and> fst (pop s') = None"
proof -
  obtain k where k: "nat (capacity s) = Suc k"
    using assms(2) by (cases "nat (capacity s)") auto
  have h: "head (init s) = Some k" using init_chain(1)[OF assms] k by simp
  have c: "\<forall>j\<le>k. ptr_to_next (data (init s) j) = (if j = 0 then None else Some (j - 1))"
    using init_chain(3)[OF assms] k by auto
  have p: "pops (Suc k) (init s) = (map Some (rev [0..<Suc k]), (init s)\<lparr>head := None\<rparr>)"
    by (rule pops_chain[OF h c])
  have u: "map (\<lambda>i. uuid (data (init s) i)) (rev [0..<Suc k]) = map int (rev [0..<Suc k])"
    using init_chain(2)[OF assms] k by (simp del: upt_Suc)
  have l: "last (map Some (rev [0..<Suc k])) = Some 0"
    by (simp add: last_map last_rev del: upt_Suc)
  show ?thesis
    unfolding k p using u l c by (simp add: pop_def del: upt_Suc)
qed

theorem init_pop_descending_witness:
  "allocated raw_slab \<and> 1 \<le> capacity raw_slab \<and>
   fst (pops 3 (init raw_slab)) = [Some 2, Some 1, Some 0]"
  using init_pop_descending[of raw_slab]
  by (simp add: raw_slab_def split: prod.splits) (simp add: eval_nat_numeral upt_rec)

section \<open>Termination of a slot\<close>

lemma terminate_dead: "sfd (data s client) = 0 \<Longrightarrow> terminate client s = s"
  by (simp add: terminate_def)

lemma terminate_live:
  assumes "sfd (data s client) \<noteq> 0"
  shows "terminate client s =
           s\<lparr>data := (data s)(client := (data s client)\<lparr>sfd := 0, ptr_to_next := head s\<rparr>),
             head := Some client,
             trace := trace s @ [Endpoint_close (sfd (data s client)), Epoll_remove (sfd (data s client))]\<rparr>"
  using assms by (simp add: terminate_def Let_def emit_def push_def)

text \<open>
  Claim C5.  \<open>terminate\<close> on a slot whose descriptor is zero returns at once and
  changes nothing.  On any other slot it closes the descriptor, removes it from the
  waiter, zeroes the slot's descriptor and pushes the slot onto the free stack (the slot
  becomes the head, linked to the old head).  A second \<open>terminate\<close> on the same slot
  changes nothing more: the full action is performed once.
\<close>

theorem terminate_idempotent:
  "(if sfd (data s client) = 0 then terminate client s = s
    else trace (terminate client s)
           = trace s @ [Endpoint_close (sfd (data s client)), Epoll_remove (sfd (data s client))]
       \<and> sfd (data (terminate client s) client) = 0
       \<and> head (terminate client s) = Some client
       \<and> ptr_to_next (data (terminate client s) client) = head s)
   \<and> terminate client (terminate client s) = terminate client s"
proof (cases "sfd (data s client) = 0")
  case True
  then show ?thesis by (simp add: terminate_dead)
next
  case False
  have z: "sfd (data (terminate client s) client) = 0"
    by (simp add: terminate_live[OF False])
  show ?thesis
    using False terminate_dead[OF z] by (simp add: terminate_live[OF False])
qed

theorem terminate_idempotent_witness:
  "sfd (data one_client 1) = 7
   \<and> trace (terminate 1 one_client) = trace one_client @ [Endpoint_close 7, Epoll_remove 7]
   \<and> head (terminate 1 one_client) = Some 1
   \<and> terminate 1 (terminate 1 one_client) = terminate 1 one_client"
  using terminate_idempotent[of one_client 1]
  by (simp add: one_client_eq raw_pool_def)

section \<open>Admission when no slot is free\<close>

lemma add_client_exhausted:
  "head s = None \<Longrightarrow> add_client packet_sink add_ret now fd s = (None, s)"
  by (simp add: add_client_def pop_def)

text \<open>
  Claim C1, evaluated on the code.  With both slots taken the free stack is empty;
  \<open>add_client\<close> for descriptor 9 then returns null and leaves the pool as it was, and
  the listener's \<open>trigger\<close> that accepted descriptor 9 goes on to the next \<open>accept\<close>:
  no call closes descriptor 9.
\<close>

theorem add_client_exhausted_keeps_descriptor_open:
  "head full_pool = None
   \<and> add_client echo_sink 0 5000 9 full_pool = (None, full_pool)
   \<and> ServerPool_trigger echo_sink accept_9 4 EPOLLIN full_pool
       = Some (emit [Endpoint_accept 4, Endpoint_unblock 9, Endpoint_accept 4] full_pool)
   \<and> Endpoint_close 9 \<notin> set (trace (emit [Endpoint_accept 4, Endpoint_unblock 9, Endpoint_accept 4] full_pool))"
proof -
  have h: "head full_pool = None" by (simp add: full_pool_eq raw_pool_def)
  have h': "\<And>cs. head (emit cs full_pool) = None" using h by (simp add: emit_def)
  have a: "add_client echo_sink 0 5000 9 full_pool = (None, full_pool)"
    by (rule add_client_exhausted[OF h])
  have t: "ServerPool_trigger echo_sink accept_9 4 EPOLLIN full_pool
       = Some (emit [Endpoint_accept 4, Endpoint_unblock 9, Endpoint_accept 4] full_pool)"
    unfolding ServerPool_trigger_def
    apply (simp add: EPOLLIN_def EPOLLHUP_def EPOLLERR_def)
    apply (subst accept_loop.simps)
    apply (simp add: accept_9_def Let_def add_client_exhausted[OF h'])
    apply (subst accept_loop.simps)
    apply (simp add: accept_9_def Let_def emit_def add_client_exhausted h)
    done
  have n: "Endpoint_close 9 \<notin> set (trace (emit [Endpoint_accept 4, Endpoint_unblock 9, Endpoint_accept 4] full_pool))"
    by (simp add: emit_def full_pool_eq raw_pool_def)
  show ?thesis using h a t n by simp
qed

section \<open>The listener's dispatch\<close>

lemma ServerPool_trigger_default:
  "flags \<noteq> EPOLLHUP \<Longrightarrow> flags \<noteq> EPOLLERR \<Longrightarrow>
   ServerPool_trigger packet_sink accepts server_sfd flags s
     = accept_loop packet_sink accepts 0 server_sfd s"
  by (simp add: ServerPool_trigger_def)

text \<open>
  Claim C4, evaluated on the code.  The listener's \<open>trigger\<close> compares the whole flag
  word with \<open>EPOLLHUP\<close> and with \<open>EPOLLERR\<close>.  An event that carries both bits is
  equal to neither: the accept loop runs and the listening socket 4 is not closed.
\<close>

theorem listener_error_and_hangup_runs_accept:
  "(EPOLLERR OR EPOLLHUP) AND EPOLLERR \<noteq> 0
   \<and> (EPOLLERR OR EPOLLHUP) AND EPOLLHUP \<noteq> 0
   \<and> ServerPool_trigger echo_sink accept_none 4 (EPOLLERR OR EPOLLHUP) fresh_pool
       = Some (emit [Endpoint_accept 4] fresh_pool)
   \<and> Endpoint_close 4 \<notin> set (trace (emit [Endpoint_accept 4] fresh_pool))"
proof -
  have t: "ServerPool_trigger echo_sink accept_none 4 (EPOLLERR OR EPOLLHUP) fresh_pool
       = Some (emit [Endpoint_accept 4] fresh_pool)"
    unfolding ServerPool_trigger_def
    apply (simp add: EPOLLHUP_def EPOLLERR_def)
    apply (subst accept_loop.simps)
    apply (simp add: accept_none_def Let_def)
    done
  show ?thesis using t
    by (simp add: EPOLLHUP_def EPOLLERR_def emit_def fresh_pool_eq raw_pool_def)
qed

section \<open>Dispatch of a hangup\<close>

lemma fire_quiet:
  "packet_sink (trace s @ [hook]) = [] \<Longrightarrow> fire packet_sink client hook s = emit [hook] s"
  by (simp add: fire_def emit_def Let_def)

lemma terminate_on_close_live:
  assumes "sfd (data s client) \<noteq> 0"
      and "\<forall>cs u. packet_sink (cs @ [Client_closed u]) = []"
  shows "terminate_on_close packet_sink client s =
           s\<lparr>data := (data s)(client := (data s client)\<lparr>sfd := 0, ptr_to_next := head s\<rparr>),
             head := Some client,
             trace := trace s @ [Endpoint_close (sfd (data s client)), Epoll_remove (sfd (data s client)),
                                 Client_closed (uuid (data s client))]\<rparr>"
proof -
  have q: "\<And>s' u. fire packet_sink client (Client_closed u) s' = emit [Client_closed u] s'"
    using assms(2) by (simp add: fire_quiet)
  show ?thesis
    using assms(1) by (simp add: terminate_on_close_def Let_def have_client_closed_def q)
      (simp add: emit_def push_def)
qed

lemma terminate_on_error_live:
  assumes "sfd (data s client) \<noteq> 0"
      and "\<forall>cs u. packet_sink (cs @ [Client_error u]) = []"
  shows "terminate_on_error packet_sink client s =
           s\<lparr>data := (data s)(client := (data s client)\<lparr>sfd := 0, ptr_to_next := head s\<rparr>),
             head := Some client,
             trace := trace s @ [Endpoint_close (sfd (data s client)), Epoll_remove (sfd (data s client)),
                                 Client_error (uuid (data s client))]\<rparr>"
proof -
  have q: "\<And>s' u. fire packet_sink client (Client_error u) s' = emit [Client_error u] s'"
    using assms(2) by (simp add: fire_quiet)
  show ?thesis
    using assms(1) by (simp add: terminate_on_error_def Let_def have_client_error_def q)
      (simp add: emit_def push_def)
qed

lemma run_ops_Nil: "run_ops packet_sink [] = Some"
  by (rule ext) simp

lemma trigger_hangup_live:
  assumes "flags AND EPOLLERR = 0"
      and "flags AND EPOLLHUP \<noteq> 0 \<or> flags AND EPOLLRDHUP \<noteq> 0"
      and "sfd (data s client) \<noteq> 0"
      and "\<forall>cs u. packet_sink (cs @ [Client_closed u]) = []"
  shows "map_option trace (trigger packet_sink env client flags s) =
           Some (trace s @ [Client_closed (uuid (data s client)),
                            Endpoint_close (sfd (data s client)), Epoll_remove (sfd (data s client)),
                            Client_closed (uuid (data s client))])"
proof -
  have h: "have_client_closed packet_sink client s = emit [Client_closed (uuid (data s client))] s"
    using assms(4) by (simp add: have_client_closed_def fire_quiet)
  have l: "sfd (data (have_client_closed packet_sink client s) client) \<noteq> 0"
    using assms(3) by (simp add: h emit_def)
  show ?thesis using assms(1,2)
    by (simp add: trigger_def terminate_on_close_live[OF l assms(4)])
       (simp add: h emit_def)
qed

text \<open>
  Claim C3, evaluated on the code.  Slot 1 is bound to descriptor 7.  The dispatch of an
  event with the peer-half-close flag (error flag clear) calls the closed hook in
  \<open>trigger\<close> and once more in \<open>terminate_on_close\<close>: the handler sees closed twice.
  In the echo scenario (accept, dispatch of the five bytes, which the handler echoes
  before it rearms, dispatch of the hangup) the hooks are accepted, data received,
  closed, closed.
\<close>

theorem hangup_fires_closed_twice:
  "EPOLLRDHUP AND EPOLLERR = 0 \<and> sfd (data one_client 1) = 7
   \<and> map_option trace (trigger echo_sink echo_env 1 EPOLLRDHUP one_client)
       = Some (trace one_client @
               [Client_closed 1, Endpoint_close 7, Epoll_remove 7, Client_closed 1])
   \<and> map_option (filter is_hook \<circ> trace)
        (run_ops echo_sink
           [Op_add_client 0 1000 7, Op_trigger echo_env 1 EPOLLIN,
            Op_trigger echo_env 1 (EPOLLIN OR EPOLLRDHUP)] fresh_pool)
       = Some [Client_accepted 1, Client_data_received 1 ''hello'' 5,
               Client_closed 1, Client_closed 1]"
proof -
  have q: "\<forall>cs u. echo_sink (cs @ [Client_closed u]) = []" by (simp add: echo_sink_simps)
  have f: "EPOLLRDHUP AND EPOLLERR = 0" by (simp add: EPOLLRDHUP_def EPOLLERR_def)
  have g: "EPOLLRDHUP AND EPOLLHUP \<noteq> 0 \<or> EPOLLRDHUP AND EPOLLRDHUP \<noteq> 0"
    by (simp add: EPOLLRDHUP_def)
  have l: "sfd (data one_client 1) = 7" "uuid (data one_client 1) = 1"
    by (simp_all add: one_client_eq raw_pool_def)
  have t: "map_option trace (trigger echo_sink echo_env 1 EPOLLRDHUP one_client)
       = Some (trace one_client @
               [Client_closed 1, Endpoint_close 7, Epoll_remove 7, Client_closed 1])"
    using trigger_hangup_live[OF f g _ q, of one_client 1 echo_env] l by simp
  have a: "snd (add_client echo_sink 0 1000 7 fresh_pool) = one_client"
    by (simp add: one_client_def)
  define s2 where "s2 = one_client\<lparr>keys := [(1, 3000)],
                 data := (data one_client)(1 := (data one_client 1)\<lparr>message_buff := ''hello''\<rparr>),
                 trace := trace one_client @
                   [Timer_set 1 3000, Endpoint_read 7, Client_data_received 1 ''hello'' 5,
                    Client_write 7 ''hello'' 5, Epoll_rearm 1 7 kFlags, Endpoint_read 7]\<rparr>"
  have r1: "read_ready_triggered echo_sink hello_then_eagain 0 1
              (timeout_timer_set 3000 1 one_client) = Some s2"
    apply (subst read_ready_triggered.simps)
    apply (simp add: hello_then_eagain_def Let_def EAGAIN_def)
    apply (subst read_ready_triggered.simps)
    apply (simp add: hello_then_eagain_def Let_def EAGAIN_def BasicClient_read_def emit_def
        have_client_data_received_def fire_def echo_sink_def rearm_def timeout_timer_set_def
        one_client_eq raw_pool_def TimeoutTimer_set_def s2_def)
    done
  have t1: "trigger echo_sink echo_env 1 EPOLLIN one_client = Some s2"
    unfolding trigger_def using r1
    by (simp add: EPOLLIN_def EPOLLERR_def EPOLLHUP_def EPOLLRDHUP_def EPOLLPRI_def echo_env_def)
  have f2: "(EPOLLIN OR EPOLLRDHUP) AND EPOLLERR = 0"
    by (simp add: EPOLLRDHUP_def EPOLLERR_def EPOLLIN_def)
  have g2: "(EPOLLIN OR EPOLLRDHUP) AND EPOLLHUP \<noteq> 0 \<or> (EPOLLIN OR EPOLLRDHUP) AND EPOLLRDHUP \<noteq> 0"
    by (simp add: EPOLLRDHUP_def EPOLLIN_def)
  have l3: "sfd (data s2 1) \<noteq> 0" using l by (simp add: s2_def)
  have t3: "map_option trace (trigger echo_sink echo_env 1 (EPOLLIN OR EPOLLRDHUP) s2)
       = Some (trace s2 @ [Client_closed (uuid (data s2 1)),
                            Endpoint_close (sfd (data s2 1)), Epoll_remove (sfd (data s2 1)),
                            Client_closed (uuid (data s2 1))])"
    by (rule trigger_hangup_live[OF f2 g2 l3 q])
  have r: "run_ops echo_sink
             [Op_add_client 0 1000 7, Op_trigger echo_env 1 EPOLLIN,
              Op_trigger echo_env 1 (EPOLLIN OR EPOLLRDHUP)] fresh_pool
           = trigger echo_sink echo_env 1 (EPOLLIN OR EPOLLRDHUP) s2"
    by (simp only: run_ops.simps(2) run_ops_Nil apply_op.simps a t1 Option.bind.simps
          Option.bind_runit)
  have tr3: "trace s2 @ [Client_closed (uuid (data s2 1)),
                            Endpoint_close (sfd (data s2 1)), Epoll_remove (sfd (data s2 1)),
                            Client_closed (uuid (data s2 1))]
            = [Client_accepted 1, Epoll_add 1 7 kFlags, Timer_set 1 1000,
               Timer_set 1 3000, Endpoint_read 7, Client_data_received 1 ''hello'' 5,
               Client_write 7 ''hello'' 5, Epoll_rearm 1 7 kFlags, Endpoint_read 7,
               Client_closed 1, Endpoint_close 7, Epoll_remove 7, Client_closed 1]"
    by (simp add: s2_def one_client_eq raw_pool_def)
  have e: "map_option (filter is_hook \<circ> trace)
        (run_ops echo_sink
           [Op_add_client 0 1000 7, Op_trigger echo_env 1 EPOLLIN,
            Op_trigger echo_env 1 (EPOLLIN OR EPOLLRDHUP)] fresh_pool)
       = Some [Client_accepted 1, Client_data_received 1 ''hello'' 5,
               Client_closed 1, Client_closed 1]"
  proof -
    have "map_option (filter is_hook \<circ> trace) (trigger echo_sink echo_env 1 (EPOLLIN OR EPOLLRDHUP) s2)
          = map_option (filter is_hook) (map_option trace (trigger echo_sink echo_env 1 (EPOLLIN OR EPOLLRDHUP) s2))"
      by (simp only: option.map_comp)
    also have "\<dots> = Some (filter is_hook [Client_accepted 1, Epoll_add 1 7 kFlags, Timer_set 1 1000,
               Timer_set 1 3000, Endpoint_read 7, Client_data_received 1 ''hello'' 5,
               Client_write 7 ''hello'' 5, Epoll_rearm 1 7 kFlags, Endpoint_read 7,
               Client_closed 1, Endpoint_close 7, Epoll_remove 7, Client_closed 1])"
      by (simp only: t3 tr3 option.map)
    also have "\<dots> = Some [Client_accepted 1, Client_data_received 1 ''hello'' 5,
               Client_closed 1, Client_closed 1]"
      by simp
    finally show ?thesis by (simp only: r)
  qed
  show ?thesis using f l t e by simp
qed

theorem hangup_fires_closed_twice_witness:
  "map_option (filter (\<lambda>c. c = Client_closed 1) \<circ> trace)
     (trigger echo_sink echo_env 1 EPOLLRDHUP one_client)
   = Some [Client_closed 1, Client_closed 1]"
proof -
  have t: "map_option trace (trigger echo_sink echo_env 1 EPOLLRDHUP one_client)
       = Some (trace one_client @
               [Client_closed 1, Endpoint_close 7, Epoll_remove 7, Client_closed 1])"
    using hangup_fires_closed_twice by blast
  have "map_option (filter (\<lambda>c. c = Client_closed 1) \<circ> trace)
          (trigger echo_sink echo_env 1 EPOLLRDHUP one_client)
        = map_option (filter (\<lambda>c. c = Client_closed 1))
            (map_option trace (trigger echo_sink echo_env 1 EPOLLRDHUP one_client))"
    by (simp only: option.map_comp)
  also have "\<dots> = Some [Client_closed 1, Client_closed 1]"
    unfolding t by (simp add: one_client_eq raw_pool_def)
  finally show ?thesis .
qed

section \<open>The timeout map under termination\<close>

lemma keys_emit: "keys (emit cs s) = keys s"
  by (simp add: emit_def)

lemma keys_push: "keys (push c s) = keys s"
  by (simp add: push_def)

lemma keys_terminate: "keys (terminate c s) = keys s"
  by (simp add: terminate_def Let_def keys_push keys_emit)

lemma keys_session_calls: "keys (session_calls c cs s) = keys s"
  by (induction c cs s rule: session_calls.induct)
     (simp_all add: keys_emit keys_terminate rearm_def)

lemma keys_fire: "keys (fire packet_sink c hook s) = keys s"
  by (simp add: fire_def Let_def keys_session_calls keys_emit)

lemma keys_timeout_timer_set:
  "keys (timeout_timer_set now c s) = TimeoutTimer_set now c (keys s)"
  by (simp add: timeout_timer_set_def emit_def)

lemma keys_terminate_on_close: "keys (terminate_on_close packet_sink c s) = keys s"
  by (simp add: terminate_on_close_def Let_def keys_push keys_emit have_client_closed_def keys_fire)

lemma keys_terminate_on_error: "keys (terminate_on_error packet_sink c s) = keys s"
  by (simp add: terminate_on_error_def Let_def keys_push keys_emit have_client_error_def keys_fire)

lemma keys_BasicClient_read: "keys (BasicClient_read r c s) = keys s"
  by (cases r) (simp add: BasicClient_read_def Let_def keys_emit)

lemma keys_BasicClient_read_oob: "keys (snd (snd (BasicClient_read_oob r c s))) = keys s"
  by (cases r) (simp add: BasicClient_read_oob_def Let_def keys_emit)

lemma keys_read_ready_triggered:
  assumes "read_ready_triggered packet_sink recv k c s = Some s'"
  shows "keys s' = keys s"
proof (rule read_ready_triggered.raw_induct
         [where P = "\<lambda>packet_sink recv k c s s'. keys s' = keys s", OF _ assms])
  fix f :: "sink \<Rightarrow> (nat \<Rightarrow> int \<times> int \<times> string) \<Rightarrow> nat \<Rightarrow> nat \<Rightarrow> pool \<Rightarrow> pool option"
    and packet_sink recv k c s s'
  assume IH: "\<And>packet_sink recv k c s s'. f packet_sink recv k c s = Some s' \<Longrightarrow> keys s' = keys s"
  assume body: "(let nbytes = fst (recv k); errno = fst (snd (recv k));
          s1 = BasicClient_read (recv k) c s
      in if nbytes = -1 \<and> errno = EAGAIN then Some s1
         else if nbytes = -1 then Some (terminate_on_error packet_sink c s1)
         else if nbytes = 0 then Some (terminate_on_close packet_sink c s1)
         else f packet_sink recv (Suc k) c
                (have_client_data_received packet_sink c (message_buff (data s1 c)) nbytes s1))
          = Some s'"
  then show "keys s' = keys s"
    by (auto simp: Let_def keys_terminate_on_close keys_terminate_on_error
          keys_BasicClient_read have_client_data_received_def keys_fire
          split: if_splits dest!: IH)
qed

lemma keys_pri_read_ready_triggered:
  assumes "pri_read_ready_triggered packet_sink oob k c s = Some s'"
  shows "keys s' = keys s"
proof (rule pri_read_ready_triggered.raw_induct
         [where P = "\<lambda>packet_sink oob k c s s'. keys s' = keys s", OF _ assms])
  fix f :: "sink \<Rightarrow> (nat \<Rightarrow> int \<times> int \<times> int \<times> char) \<Rightarrow> nat \<Rightarrow> nat \<Rightarrow> pool \<Rightarrow> pool option"
    and packet_sink oob k c s s'
  assume IH: "\<And>packet_sink oob k c s s'. f packet_sink oob k c s = Some s' \<Longrightarrow> keys s' = keys s"
  assume body: "(let errno = fst (snd (snd (oob k)));
          mark = fst (BasicClient_read_oob (oob k) c s);
          oobdata = fst (snd (BasicClient_read_oob (oob k) c s));
          s1 = snd (snd (BasicClient_read_oob (oob k) c s))
      in if mark = -1 \<and> errno = EAGAIN then Some s1
         else if mark = -1 then Some (terminate_on_error packet_sink c s1)
         else if mark = 0 then Some s1
         else f packet_sink oob (Suc k) c (have_client_oob_received packet_sink c oobdata s1))
          = Some s'"
  then show "keys s' = keys s"
    by (auto simp: Let_def keys_terminate_on_error
          keys_BasicClient_read_oob have_client_oob_received_def keys_fire
          split: if_splits dest!: IH)
qed

lemma dom_TimeoutTimer_set:
  "fst ` set (TimeoutTimer_set now c ks) = insert c (fst ` set ks)"
  by (simp add: TimeoutTimer_set_def AList.dom_update)

lemma keys_trigger:
  assumes "trigger packet_sink env c flags s = Some s'"
  shows "fst ` set (keys s') \<subseteq> fst ` set (keys s) \<union> {x. arms (Op_trigger env c flags) s x}"
proof (cases "flags AND EPOLLERR \<noteq> 0 \<or> flags AND EPOLLHUP \<noteq> 0 \<or> flags AND EPOLLRDHUP \<noteq> 0")
  case True
  then show ?thesis using assms
    by (auto simp: trigger_def keys_terminate_on_error keys_terminate_on_close
          have_client_closed_def keys_fire split: if_splits)
next
  case False
  let ?sp = "timeout_timer_set (now_pri env) c s"
  obtain s1 where s1: "(if flags AND EPOLLPRI \<noteq> 0
              then pri_read_ready_triggered packet_sink (oob_results env) 0 c ?sp
              else Some s) = Some s1"
    and s': "(if flags AND EPOLLIN \<noteq> 0
                   then read_ready_triggered packet_sink (recv_results env) 0 c
                          (timeout_timer_set (now_in env) c s1)
                   else Some s1) = Some s'"
    using assms False by (auto simp: trigger_def split: if_splits Option.bind_splits)
  have k1: "fst ` set (keys s1) \<subseteq> fst ` set (keys s) \<union> {x. x = c \<and> flags AND EPOLLPRI \<noteq> 0}"
  proof (cases "flags AND EPOLLPRI \<noteq> 0")
    case True
    then have "keys s1 = keys ?sp" using s1 by (auto dest!: keys_pri_read_ready_triggered)
    then show ?thesis using True by (simp add: keys_timeout_timer_set dom_TimeoutTimer_set)
  next
    case False
    then show ?thesis using s1 by auto
  qed
  have k2: "fst ` set (keys s') \<subseteq> fst ` set (keys s1) \<union> {x. x = c \<and> flags AND EPOLLIN \<noteq> 0}"
  proof (cases "flags AND EPOLLIN \<noteq> 0")
    case True
    then have "keys s' = keys (timeout_timer_set (now_in env) c s1)"
      using s' by (auto dest!: keys_read_ready_triggered)
    then show ?thesis using True by (simp add: keys_timeout_timer_set dom_TimeoutTimer_set)
  next
    case False
    then show ?thesis using s' by auto
  qed
  have ar: "{x. arms (Op_trigger env c flags) s x}
            = {x. x = c \<and> (flags AND EPOLLPRI \<noteq> 0 \<or> flags AND EPOLLIN \<noteq> 0)}"
    using False by auto
  show ?thesis unfolding ar using k1 k2 by blast
qed

lemma keys_add_client:
  "fst ` set (keys (snd (add_client packet_sink add_ret now fd s)))
     \<subseteq> fst ` set (keys s) \<union> {x. arms (Op_add_client add_ret now fd) s x}"
  by (auto simp: add_client_def pop_def Let_def keys_terminate keys_emit keys_fire
        have_client_accepted_def keys_timeout_timer_set dom_TimeoutTimer_set
        split: option.splits)

lemma keys_timed_out_clients_fn: "keys (timed_out_clients_fn packet_sink cs s) = keys s"
  unfolding timed_out_clients_fn_def
  by (induction cs arbitrary: s) (simp_all add: keys_terminate_on_close)

lemma dom_fold_delete: "fst ` set (fold AList.delete ks al) \<subseteq> fst ` set al"
proof (induction ks arbitrary: al)
  case Nil then show ?case by simp
next
  case (Cons k ks)
  have "fst ` set (fold AList.delete ks (AList.delete k al)) \<subseteq> fst ` set (AList.delete k al)"
    by (rule Cons.IH)
  also have "\<dots> \<subseteq> fst ` set al" by (rule AList.dom_delete_subset)
  finally show ?case by simp
qed

lemma keys_reaper_pass:
  "fst ` set (keys (reaper_pass packet_sink iv clock s)) \<subseteq> fst ` set (keys s)"
  by (simp add: reaper_pass_def do_run_pass_def Let_def keys_timed_out_clients_fn
        prune_timed_out_keys_def dom_fold_delete)

lemma keys_apply_op:
  "apply_op packet_sink x s = Some s' \<Longrightarrow>
   fst ` set (keys s') \<subseteq> fst ` set (keys s) \<union> {c. arms x s c}"
proof (cases x)
  case (Op_add_client r n fd)
  assume "apply_op packet_sink x s = Some s'"
  then show ?thesis using keys_add_client[of packet_sink r n fd s] Op_add_client by auto
next
  case (Op_trigger env c fl)
  assume "apply_op packet_sink x s = Some s'"
  then show ?thesis using keys_trigger[of packet_sink env c fl s s'] Op_trigger by auto
next
  case (Op_rearm c)
  assume "apply_op packet_sink x s = Some s'"
  then show ?thesis using Op_rearm by (auto simp: rearm_def keys_emit)
next
  case (Op_terminate c)
  assume "apply_op packet_sink x s = Some s'"
  then show ?thesis using Op_terminate by (auto simp: keys_terminate)
next
  case (Op_reaper iv clk)
  assume "apply_op packet_sink x s = Some s'"
  then show ?thesis using keys_reaper_pass[of packet_sink iv clk s] Op_reaper by auto
qed

lemma keys_run_ops:
  "run_ops packet_sink xs s = Some s' \<Longrightarrow>
   fst ` set (keys s') \<subseteq> fst ` set (keys s) \<union> {c. armed_in packet_sink xs s c}"
proof (induction xs arbitrary: s)
  case Nil
  then show ?case by simp
next
  case (Cons x xs)
  from Cons.prems obtain s1 where a: "apply_op packet_sink x s = Some s1"
    and r: "run_ops packet_sink xs s1 = Some s'"
    by (auto split: Option.bind_splits)
  have "fst ` set (keys s') \<subseteq> fst ` set (keys s1) \<union> {c. armed_in packet_sink xs s1 c}"
    by (rule Cons.IH[OF r])
  moreover have "fst ` set (keys s1) \<subseteq> fst ` set (keys s) \<union> {c. arms x s c}"
    by (rule keys_apply_op[OF a])
  ultimately show ?case using a by auto
qed

text \<open>
  Claim C2 as stated fails.  Slot 1 was armed by \<open>add_client\<close>; after each of the three
  terminate variants the timeout map still holds the entry keyed by slot 1.
\<close>

theorem terminate_keeps_timeout_entry:
  "map_of (keys (terminate 1 one_client)) 1 \<noteq> None
   \<and> map_of (keys (terminate_on_close echo_sink 1 one_client)) 1 \<noteq> None
   \<and> map_of (keys (terminate_on_error echo_sink 1 one_client)) 1 \<noteq> None
   \<and> sfd (data (terminate 1 one_client) 1) = 0"
  by (simp add: keys_terminate keys_terminate_on_close keys_terminate_on_error
        terminate_def Let_def emit_def push_def)
     (simp add: one_client_eq raw_pool_def)

text \<open>
  Claim C2, amended.  \<open>terminate\<close>, \<open>terminate_on_close\<close> and \<open>terminate_on_error\<close>
  leave the timeout map as it is, so an entry keyed by the connection stays after
  termination.  In every history of a pool that starts with an empty timeout map, an
  entry for a slot is present only if some call of the history has armed the slot.
  Both hold whatever the callbacks do through their sessions.
\<close>

theorem timeout_map_unchanged_by_terminate:
  "keys (terminate c s) = keys s
   \<and> keys (terminate_on_close packet_sink c s) = keys s
   \<and> keys (terminate_on_error packet_sink c s) = keys s
   \<and> (keys s = [] \<and> run_ops packet_sink xs s = Some s' \<and> map_of (keys s') c \<noteq> None
        \<longrightarrow> armed_in packet_sink xs s c)"
proof -
  have "armed_in packet_sink xs s c"
    if e: "keys s = []" and r: "run_ops packet_sink xs s = Some s'"
      and m: "map_of (keys s') c \<noteq> None"
  proof -
    from m have "c \<in> fst ` set (keys s')" by (simp add: map_of_eq_None_iff)
    then show ?thesis using keys_run_ops[OF r] e by auto
  qed
  then show ?thesis
    by (simp add: keys_terminate keys_terminate_on_close keys_terminate_on_error)
qed

theorem timeout_map_unchanged_by_terminate_witness:
  "keys fresh_pool = []
   \<and> run_ops echo_sink [Op_add_client 0 1000 7, Op_terminate 1] fresh_pool
       = Some (terminate 1 one_client)
   \<and> map_of (keys (terminate 1 one_client)) 1 \<noteq> None
   \<and> armed_in echo_sink [Op_add_client 0 1000 7, Op_terminate 1] fresh_pool 1
   \<and> keys (terminate 1 one_client) = keys one_client"
proof -
  have k: "keys fresh_pool = []" by (simp add: fresh_pool_eq raw_pool_def)
  have r: "run_ops echo_sink [Op_add_client 0 1000 7, Op_terminate 1] fresh_pool
             = Some (terminate 1 one_client)"
    by (simp add: one_client_def)
  have m: "map_of (keys (terminate 1 one_client)) 1 \<noteq> None"
    by (simp add: keys_terminate) (simp add: one_client_eq raw_pool_def)
  show ?thesis
    using timeout_map_unchanged_by_terminate
            [of 1 one_client echo_sink "[Op_add_client 0 1000 7, Op_terminate 1]"
               "terminate 1 one_client"]
          timeout_map_unchanged_by_terminate
            [of 1 fresh_pool echo_sink "[Op_add_client 0 1000 7, Op_terminate 1]"
               "terminate 1 one_client"]
          k r m
    by blast
qed

section \<open>The reaper's pruning pass\<close>










section \<open>The session write\<close>




section \<open>Dispatch of a readable event\<close>

lemma BasicClient_read_fields:
  "trace (BasicClient_read r c s) = trace s @ [Endpoint_read (client_sfd (data s c))]"
  "keys (BasicClient_read r c s) = keys s"
  "head (BasicClient_read r c s) = head s"
  "uuid (data (BasicClient_read r c s) c) = uuid (data s c)"
  "sfd (data (BasicClient_read r c s) c) = sfd (data s c)"
  "client_sfd (data (BasicClient_read r c s) c) = client_sfd (data s c)"
  "message_buff (data (BasicClient_read r c s) c)
     = (if 0 < fst r then snd (snd r) else message_buff (data s c))"
  by (cases r; simp add: BasicClient_read_def Let_def emit_def)+

lemma trace_session_calls: "prefix (trace s) (trace (session_calls c cs s))"
proof (induction c cs s rule: session_calls.induct)
  case (1 client s)
  then show ?case by simp
next
  case (2 client buff sz cs s)
  have "prefix (trace s) (trace (emit [Client_write (client_sfd (data s client)) buff sz] s))"
    by (simp add: emit_def)
  then show ?case using 2 prefix_order.trans by fastforce
next
  case (3 client cs s)
  have "prefix (trace s) (trace (rearm client s))" by (simp add: rearm_def emit_def)
  then show ?case using 3 prefix_order.trans by fastforce
next
  case (4 client cs s)
  have "prefix (trace s) (trace (terminate client s))"
    by (simp add: terminate_def Let_def emit_def push_def)
  then show ?case using 4 prefix_order.trans by fastforce
qed


lemma trace_fire: "prefix (trace s @ [hook]) (trace (fire packet_sink c hook s))"
  using trace_session_calls[of "emit [hook] s" c "packet_sink (trace s @ [hook])"]
  by (simp add: fire_def Let_def emit_def)




lemma forward_trace:
  assumes "0 < fst r"
  shows "prefix (trace s @ [Endpoint_read (client_sfd (data s c)),
                            Client_data_received (uuid (data s c)) (snd (snd r)) (fst r)])
           (trace (have_client_data_received packet_sink c (snd (snd r)) (fst r)
                     (BasicClient_read r c s)))"
  using trace_fire[of "BasicClient_read r c s"
          "Client_data_received (uuid (data s c)) (snd (snd r)) (fst r)" packet_sink c]
  by (simp add: have_client_data_received_def BasicClient_read_fields)









section \<open>The shutdown chain\<close>

lemma fold_wait_enter:
  "fold wait_enter ws w =
     w\<lparr>instance_count := instance_count w + int (length ws), waiting := waiting w @ ws\<rparr>"
  by (induction ws arbitrary: w) (simp_all add: wait_enter_def)

lemma wait_selfpipe_step:
  assumes "\<forall>j. ctl j \<noteq> -1"
  shows "wait_selfpipe ctl me (w\<lparr>armed := False\<rparr>) =
           Inr (if instance_count w - 1 > 0
                then w\<lparr>selfpipe := selfpipe w - 1 + 1, instance_count := instance_count w - 1,
                       armed := True, close_calls := close_calls w + 1,
                       waiting := remove1 me (waiting w)\<rparr>
                else w\<lparr>selfpipe := selfpipe w - 1, instance_count := instance_count w - 1,
                       armed := False, waiting := remove1 me (waiting w)\<rparr>)"
  using assms by (simp add: wait_selfpipe_def close_def Let_def)

lemma deliveries_chain:
  assumes "\<forall>j. ctl j \<noteq> -1"
      and "distinct sched" and "set sched \<subseteq> set (waiting w)"
      and "distinct (waiting w)" and "instance_count w = int (length (waiting w))"
      and "waiting w \<noteq> [] \<longrightarrow> armed w \<and> selfpipe w = 1"
  shows "\<exists>w'. deliveries ctl sched w = Some (Inr w')
           \<and> distinct (waiting w') \<and> set (waiting w') = set (waiting w) - set sched
           \<and> instance_count w' = int (length (waiting w'))
           \<and> length (waiting w') = length (waiting w) - length sched
           \<and> close_calls w' = close_calls w + min (length sched) (length (waiting w) - 1)
           \<and> (if sched = [] then selfpipe w' = selfpipe w
               else selfpipe w' = (if waiting w' = [] then 0 else 1))"
  using assms(2-)
proof (induction sched arbitrary: w)
  case Nil
  then show ?case by simp
next
  case (Cons me sched)
  have mem: "me \<in> set (waiting w)" using Cons.prems(2) by simp
  then have ne: "waiting w \<noteq> []" by auto
  then have ar: "armed w" "selfpipe w = 1" using Cons.prems(5) by simp_all
  have del: "delivers w me" using mem ar by (simp add: delivers_def)
  let ?m = "length (waiting w)"
  have m1: "1 \<le> ?m" using ne by (cases "waiting w") simp_all
  define w1 where "w1 = (if instance_count w - 1 > 0
                then w\<lparr>selfpipe := selfpipe w - 1 + 1, instance_count := instance_count w - 1,
                       armed := True, close_calls := close_calls w + 1,
                       waiting := remove1 me (waiting w)\<rparr>
                else w\<lparr>selfpipe := selfpipe w - 1, instance_count := instance_count w - 1,
                       armed := False, waiting := remove1 me (waiting w)\<rparr>)"
  have st: "wait_selfpipe ctl me (w\<lparr>armed := False\<rparr>) = Inr w1"
    unfolding w1_def by (rule wait_selfpipe_step[OF assms(1)])
  have pos: "instance_count w - 1 > 0 \<longleftrightarrow> 1 < ?m"
    using Cons.prems(4) by auto
  have wl: "waiting w1 = remove1 me (waiting w)" by (simp add: w1_def)
  have icw: "instance_count w1 = instance_count w - 1" by (simp add: w1_def)
  have ccw: "close_calls w1 = close_calls w + (if 1 < ?m then 1 else 0)"
    using pos by (simp add: w1_def)
  have sp1: "selfpipe w1 = (if 1 < ?m then 1 else 0)"
    using pos ar by (simp add: w1_def)
  have ar1: "1 < ?m \<Longrightarrow> armed w1" using pos by (simp add: w1_def)
  have len1: "length (waiting w1) = ?m - 1"
    using mem by (simp add: wl length_remove1)
  have ic: "instance_count w1 = int (length (waiting w1))"
    using Cons.prems(4) m1 by (simp add: icw len1)
  have d1: "distinct (waiting w1)" using Cons.prems(3) by (simp add: wl)
  have sub: "set sched \<subseteq> set (waiting w1)"
    using Cons.prems(1,2,3) by (auto simp: wl)
  have ne1: "waiting w1 \<noteq> [] \<longrightarrow> armed w1 \<and> selfpipe w1 = 1"
  proof
    assume "waiting w1 \<noteq> []"
    then have "0 < length (waiting w1)" by simp
    then have "1 < ?m" using len1 by simp
    then show "armed w1 \<and> selfpipe w1 = 1" using ar1 sp1 by simp
  qed
  have dsched: "distinct sched" using Cons.prems(1) by simp
  from Cons.IH[OF dsched sub d1 ic ne1] obtain w' where
    r: "deliveries ctl sched w1 = Some (Inr w')" and
    dw: "distinct (waiting w')" and
    sw: "set (waiting w') = set (waiting w1) - set sched" and
    iw: "instance_count w' = int (length (waiting w'))" and
    lw: "length (waiting w') = length (waiting w1) - length sched" and
    cw: "close_calls w' = close_calls w1 + min (length sched) (length (waiting w1) - 1)" and
    pw: "(if sched = [] then selfpipe w' = selfpipe w1
               else selfpipe w' = (if waiting w' = [] then 0 else 1))"
    by blast
  have run: "deliveries ctl (me # sched) w = Some (Inr w')"
    using del st r by simp
  have s2: "set (waiting w') = set (waiting w) - set (me # sched)"
    using sw Cons.prems(3) by (auto simp: wl)
  have l2: "length (waiting w') = ?m - length (me # sched)"
    using lw len1 by simp
  have lsub: "length sched \<le> ?m - 1"
    using sub dsched d1 len1 by (metis card_mono distinct_card List.finite_set)
  have c2: "close_calls w' = close_calls w + min (length (me # sched)) (?m - 1)"
  proof (cases "1 < ?m")
    case True
    then have "close_calls w1 = close_calls w + 1" using ccw by simp
    then show ?thesis using cw len1 lsub True by simp
  next
    case False
    then have "close_calls w1 = close_calls w" using ccw by simp
    moreover have "?m = 1" using False m1 by simp
    ultimately show ?thesis using cw len1 lsub by simp
  qed
  have p2: "selfpipe w' = (if waiting w' = [] then 0 else 1)"
  proof (cases "sched = []")
    case True
    then have "w' = w1" using r by simp
    have "waiting w1 = [] \<longleftrightarrow> \<not> 1 < ?m"
      unfolding length_0_conv[symmetric] using len1 m1 by arith
    then show ?thesis using sp1 \<open>w' = w1\<close> by simp
  next
    case False
    then show ?thesis using pw by simp
  qed
  show ?case
    using run dw s2 iw l2 c2 p2 by auto
qed


text \<open>
  Claim C6.  \<open>K \<ge> 1\<close> workers have entered \<open>wait\<close> on one waiter and \<open>close\<close> is
  called (no \<open>epoll_ctl\<close> fails).  Whatever the order in which the kernel hands the
  self-pipe event to the workers, every worker receives it once, and after the \<open>K\<close>
  deliveries no worker is left inside \<open>wait\<close>, the counter is 0, the pipe is empty and
  \<open>close\<close> has been called exactly \<open>K\<close> times in total.  Each worker that handles the
  event decrements the counter, calls \<open>close\<close> again if and only if the decremented
  value is positive, and leaves the loop.
\<close>

theorem shutdown_chain:
  assumes "\<forall>j. ctl j \<noteq> -1"
      and "distinct ws" and "ws \<noteq> []"
      and "distinct sched" and "set sched = set ws"
  shows "(case close ctl (fold wait_enter ws EpollWaiter) of
            Inl e \<Rightarrow> False
          | Inr w1 \<Rightarrow>
              instance_count w1 = int (length ws) \<and> close_calls w1 = 1
            \<and> (case deliveries ctl sched w1 of
                  Some (Inr w') \<Rightarrow>
                    waiting w' = [] \<and> instance_count w' = 0
                  \<and> close_calls w' = length ws \<and> selfpipe w' = 0
                | _ \<Rightarrow> False))
       \<and> (\<forall>w me. case wait_selfpipe ctl me (w\<lparr>armed := False\<rparr>) of
                    Inl e \<Rightarrow> False
                  | Inr w' \<Rightarrow>
                      instance_count w' = instance_count w - 1
                    \<and> close_calls w' = close_calls w + (if instance_count w - 1 > 0 then 1 else 0)
                    \<and> waiting w' = remove1 me (waiting w))"
proof -
  let ?w0 = "fold wait_enter ws EpollWaiter"
  let ?w1 = "?w0\<lparr>armed := True, selfpipe := selfpipe ?w0 + 1, close_calls := close_calls ?w0 + 1\<rparr>"
  have c: "close ctl ?w0 = Inr ?w1" using assms(1) by (simp add: close_def)
  have f: "waiting ?w1 = ws" "instance_count ?w1 = int (length ws)" "close_calls ?w1 = 1"
      "selfpipe ?w1 = 1" "armed ?w1"
    by (simp_all add: fold_wait_enter EpollWaiter_def)
  have sub: "set sched \<subseteq> set (waiting ?w1)" using assms(5) f(1) by simp
  have d: "distinct (waiting ?w1)" using assms(2) f(1) by simp
  have ic: "instance_count ?w1 = int (length (waiting ?w1))" using f by simp
  have ar: "waiting ?w1 \<noteq> [] \<longrightarrow> armed ?w1 \<and> selfpipe ?w1 = 1" using f by simp
  from deliveries_chain[OF assms(1) assms(4) sub d ic ar] obtain w' where
    r: "deliveries ctl sched ?w1 = Some (Inr w')" and
    sw: "set (waiting w') = set (waiting ?w1) - set sched" and
    iw: "instance_count w' = int (length (waiting w'))" and
    cw: "close_calls w' = close_calls ?w1 + min (length sched) (length (waiting ?w1) - 1)" and
    pw: "(if sched = [] then selfpipe w' = selfpipe ?w1
               else selfpipe w' = (if waiting w' = [] then 0 else 1))"
    by blast
  have e: "waiting w' = []" using sw assms(5) f(1) by simp
  have ls: "length sched = length ws"
    using assms(2,4,5) by (metis distinct_card)
  have k: "1 \<le> length ws" using assms(3) by (cases ws) simp_all
  have sn: "sched \<noteq> []" using assms(3,5) by auto
  have cc: "close_calls w' = length ws" using cw f ls k by simp
  have first: "(case close ctl ?w0 of
            Inl e \<Rightarrow> False
          | Inr w1 \<Rightarrow>
              instance_count w1 = int (length ws) \<and> close_calls w1 = 1
            \<and> (case deliveries ctl sched w1 of
                  Some (Inr w') \<Rightarrow>
                    waiting w' = [] \<and> instance_count w' = 0
                  \<and> close_calls w' = length ws \<and> selfpipe w' = 0
                | _ \<Rightarrow> False))"
    unfolding c using f(2,3) r e iw cc pw sn by simp
  have second: "case wait_selfpipe ctl me (w\<lparr>armed := False\<rparr>) of
                    Inl e \<Rightarrow> False
                  | Inr w' \<Rightarrow>
                      instance_count w' = instance_count w - 1
                    \<and> close_calls w' = close_calls w + (if instance_count w - 1 > 0 then 1 else 0)
                    \<and> waiting w' = remove1 me (waiting w)" for w me
    unfolding wait_selfpipe_step[OF assms(1)] by simp
  show ?thesis using first second by blast
qed

theorem shutdown_chain_witness:
  "(\<forall>j. ctl_ok j \<noteq> -1) \<and> distinct [10, 11, 12 :: nat] \<and> [10, 11, 12 :: nat] \<noteq> []
   \<and> distinct [12, 10, 11 :: nat] \<and> set [12, 10, 11 :: nat] = set [10, 11, 12]
   \<and> (case close ctl_ok (fold wait_enter [10, 11, 12] EpollWaiter) of
         Inl e \<Rightarrow> False
       | Inr w1 \<Rightarrow>
           (case deliveries ctl_ok [12, 10, 11] w1 of
              Some (Inr w') \<Rightarrow> waiting w' = [] \<and> close_calls w' = 3 \<and> instance_count w' = 0
            | _ \<Rightarrow> False))"
proof -
  have a: "\<forall>j. ctl_ok j \<noteq> -1" by (simp add: ctl_ok_def)
  have b: "distinct [10, 11, 12 :: nat]" "[10, 11, 12 :: nat] \<noteq> []"
    "distinct [12, 10, 11 :: nat]" "set [12, 10, 11 :: nat] = set [10, 11, 12]"
    by auto
  let ?w1 = "\<lparr>instance_count = 3, selfpipe = 1, armed = True, waiting = [10, 11, 12],
              close_calls = 1\<rparr>"
  have c: "close ctl_ok (fold wait_enter [10, 11, 12] EpollWaiter) = Inr ?w1"
    by (simp add: close_def ctl_ok_def wait_enter_def EpollWaiter_def)
  have t: "case deliveries ctl_ok [12, 10, 11] ?w1 of
              Some (Inr w') \<Rightarrow> waiting w' = [] \<and> instance_count w' = 0
                  \<and> close_calls w' = length [10, 11, 12 :: nat] \<and> selfpipe w' = 0
            | _ \<Rightarrow> False"
    using shutdown_chain[OF a b, THEN conjunct1] unfolding c by simp
  have "case deliveries ctl_ok [12, 10, 11] ?w1 of
              Some (Inr w') \<Rightarrow> waiting w' = [] \<and> close_calls w' = 3 \<and> instance_count w' = 0
            | _ \<Rightarrow> False"
  proof (cases "deliveries ctl_ok [12, 10, 11] ?w1")
    case None
    then show ?thesis using t by simp
  next
    case (Some r)
    then show ?thesis using t by (cases r) simp_all
  qed
  then show ?thesis using a b unfolding c by simp
qed

end
